theory Spec2Isabelle
  imports Complex_Main "HOL-Library.AList" "HOL-Library.Multiset"
begin

section \<open>Runes and the character classes of Go's unicode package\<close>

text \<open>
  A Go \<^verbatim>\<open>rune\<close> is a code point, an integer. The lexer works on \<^verbatim>\<open>[]rune\<close>, the
  decoded text of a file or of a query; a Go \<^verbatim>\<open>string\<close> made of runes is modelled by
  the list of its runes.
\<close>

type_synonym rune = int

type_synonym str = "rune list"

definition runes :: "string \<Rightarrow> rune list" where
  \<comment> \<open>\<^verbatim>\<open>[]rune(s)\<close> for an ASCII literal \<^verbatim>\<open>s\<close>: one rune per byte.\<close>
  "runes s = map of_char s"

text \<open>
  \<^verbatim>\<open>unicode.IsSpace\<close>, \<^verbatim>\<open>unicode.IsNumber\<close>, \<^verbatim>\<open>unicode.IsLetter\<close> and
  \<^verbatim>\<open>unicode.ToUpper\<close> belong to Go's standard library, not to the repository. On ASCII
  they are fixed by the Unicode standard and written out below; beyond ASCII they read
  the library's range tables, which the model takes as a parameter \<open>U\<close>. Every theorem
  holds for every \<open>U\<close>, so for the tables of any Go release.
\<close>

record unicode =
  tabSpace :: "rune \<Rightarrow> bool"
  tabNumber :: "rune \<Rightarrow> bool"
  tabLetter :: "rune \<Rightarrow> bool"
  tabUpper :: "rune \<Rightarrow> rune"

definition isASCII :: "rune \<Rightarrow> bool" where
  "isASCII r = (0 \<le> r \<and> r \<le> 127)"

definition IsSpace :: "unicode \<Rightarrow> rune \<Rightarrow> bool" where
  \<comment> \<open>ASCII white space: tab, line feed, vertical tab, form feed, carriage return, space.\<close>
  "IsSpace U r = (if isASCII r then (9 \<le> r \<and> r \<le> 13) \<or> r = 32 else tabSpace U r)"

definition IsNumber :: "unicode \<Rightarrow> rune \<Rightarrow> bool" where
  \<comment> \<open>The only ASCII runes of category N are the digits \<^verbatim>\<open>0\<close> to \<^verbatim>\<open>9\<close>.\<close>
  "IsNumber U r = (if isASCII r then 48 \<le> r \<and> r \<le> 57 else tabNumber U r)"

definition IsLetter :: "unicode \<Rightarrow> rune \<Rightarrow> bool" where
  \<comment> \<open>The ASCII letters: \<^verbatim>\<open>A\<close> to \<^verbatim>\<open>Z\<close> and \<^verbatim>\<open>a\<close> to \<^verbatim>\<open>z\<close>.\<close>
  "IsLetter U r =
     (if isASCII r then (65 \<le> r \<and> r \<le> 90) \<or> (97 \<le> r \<and> r \<le> 122) else tabLetter U r)"

definition ToUpper :: "unicode \<Rightarrow> rune \<Rightarrow> rune" where
  \<comment> \<open>On ASCII: \<^verbatim>\<open>if 'a' <= r && r <= 'z' { r -= 'a' - 'A' }\<close>.\<close>
  "ToUpper U r =
     (if isASCII r then (if 97 \<le> r \<and> r \<le> 122 then r - 32 else r) else tabUpper U r)"

section \<open>The lexer\<close>

text \<open>
  A slice expression whose bounds are out of range panics at run time; the panic is the
  value \<open>Inl SliceBounds\<close>. \<^verbatim>\<open>log.Fatal\<close> ends the process (\<open>Fatal\<close>), and an error
  value returned to the caller is \<open>IOError\<close>.
\<close>

datatype fault = SliceBounds | Fatal | IOError

record lexer =
  content :: "rune list"

definition NewLexer :: "rune list \<Rightarrow> lexer" where
  "NewLexer c = \<lparr>content = c\<rparr>"

fun skipSpace :: "unicode \<Rightarrow> rune list \<Rightarrow> rune list" where
  \<comment> \<open>The loop of \<^verbatim>\<open>trimLeft\<close>: while the first rune is white space, drop it.\<close>
  "skipSpace U [] = []"
| "skipSpace U (c # cs) = (if IsSpace U c then skipSpace U cs else c # cs)"

definition trimLeft :: "unicode \<Rightarrow> lexer \<Rightarrow> lexer" where
  "trimLeft U l = l\<lparr>content := skipSpace U (content l)\<rparr>"

definition chop :: "nat \<Rightarrow> lexer \<Rightarrow> fault + (rune list \<times> lexer)" where
  \<comment> \<open>\<^verbatim>\<open>token := l.content[0:n]; l.content = l.content[n:]\<close>: the second slice panics
      when \<^verbatim>\<open>n > len(l.content)\<close>.\<close>
  "chop n l =
     (if n > length (content l) then Inl SliceBounds
      else Inr (take n (content l), l\<lparr>content := drop n (content l)\<rparr>))"

fun countWhile :: "(rune \<Rightarrow> bool) \<Rightarrow> rune list \<Rightarrow> nat" where
  \<comment> \<open>\<^verbatim>\<open>n := 0; for n < len(l.content) && predicate(l.content[n]) { n++ }\<close>\<close>
  "countWhile p [] = 0"
| "countWhile p (c # cs) = (if p c then Suc (countWhile p cs) else 0)"

definition chopWhile :: "(rune \<Rightarrow> bool) \<Rightarrow> lexer \<Rightarrow> fault + (rune list \<times> lexer)" where
  "chopWhile predicate l = chop (countWhile predicate (content l)) l"

definition Next :: "unicode \<Rightarrow> lexer \<Rightarrow> fault + (rune list option \<times> bool \<times> lexer)" where
  \<comment> \<open>The result is \<^verbatim>\<open>(value, hasNext)\<close> and the lexer after the call; \<^verbatim>\<open>nil\<close> is
      \<open>None\<close>. \<^verbatim>\<open>'<'\<close> is 60 and \<^verbatim>\<open>'>'\<close> is 62.\<close>
  "Next U l0 =
     (let l = trimLeft U l0 in
      if length (content l) = 0 then Inr (None, False, l)
      else if hd (content l) = 60 then
        (let n = countWhile (\<lambda>r. r \<noteq> 62) (content l) in
         if n + 1 > length (content l) then Inl SliceBounds
         else Inr (None, True, l\<lparr>content := drop (n + 1) (content l)\<rparr>))
      else if IsNumber U (hd (content l)) then
        (case chopWhile (\<lambda>r. IsNumber U r) l of
           Inl e \<Rightarrow> Inl e
         | Inr (token, l') \<Rightarrow> Inr (Some token, True, l'))
      else if IsLetter U (hd (content l)) then
        (case chopWhile (\<lambda>r. IsLetter U r \<or> IsNumber U r) l of
           Inl e \<Rightarrow> Inl e
         | Inr (token, l') \<Rightarrow> Inr (Some token, True, l'))
      else
        (case chop 1 l of
           Inl e \<Rightarrow> Inl e
         | Inr (token, l') \<Rightarrow> Inr (Some token, True, l')))"

text \<open>
  The loop of \<^verbatim>\<open>tokenize\<close> is \<^verbatim>\<open>for { ... }\<close> with a \<^verbatim>\<open>break\<close> when \<^verbatim>\<open>hasNext\<close> is
  false: nothing in its text bounds it, so the model is a partial function and \<open>None\<close>
  stands for a loop that never ends. A panic inside \<^verbatim>\<open>Next\<close> ends the loop with the
  fault.
\<close>

partial_function (option) tokenize_loop ::
  "unicode \<Rightarrow> lexer \<Rightarrow> str list \<Rightarrow> (fault + str list) option" where
  "tokenize_loop U l result =
     (case Next U l of
        Inl e \<Rightarrow> Some (Inl e)
      | Inr (token, hasNext, l') \<Rightarrow>
          if \<not> hasNext then Some (Inr result)
          else (case token of
                  None \<Rightarrow> tokenize_loop U l' result
                | Some t \<Rightarrow> tokenize_loop U l' (result @ [map (ToUpper U) t])))"

definition tokenize :: "unicode \<Rightarrow> rune list \<Rightarrow> (fault + str list) option" where
  "tokenize U term = tokenize_loop U (NewLexer term) []"

definition ascii_only :: unicode where
  \<comment> \<open>A table with no white space, number or letter beyond ASCII, used to run the
      model on concrete ASCII inputs.\<close>
  "ascii_only =
     \<lparr>tabSpace = (\<lambda>r. False), tabNumber = (\<lambda>r. False), tabLetter = (\<lambda>r. False),
      tabUpper = (\<lambda>r. r)\<rparr>"

section \<open>Floating-point values\<close>

text \<open>
  \<^verbatim>\<open>float32\<close> and \<^verbatim>\<open>float64\<close> values are modelled with their IEEE 754 special
  values: not-a-number, the two infinities, and the finite values. A finite value is a
  real number: rounding is not modelled, and the two zeros are one value. The program
  divides only by numbers converted from \<^verbatim>\<open>int\<close> and by \<^verbatim>\<open>math.Max(x, 1)\<close>, so a
  negative zero never is a divisor.
\<close>

datatype flt = NaN | NInf | Fin real | PInf

definition float32 :: "int \<Rightarrow> flt" where
  "float32 i = Fin (of_int i)"

definition float64 :: "int \<Rightarrow> flt" where
  "float64 i = Fin (of_int i)"

definition float32_of_float64 :: "flt \<Rightarrow> flt" where
  "float32_of_float64 x = x"

fun fdiv :: "flt \<Rightarrow> flt \<Rightarrow> flt" where
  "fdiv NaN y = NaN"
| "fdiv x NaN = NaN"
| "fdiv (Fin a) (Fin b) =
     (if b = 0 then (if a = 0 then NaN else if 0 < a then PInf else NInf) else Fin (a / b))"
| "fdiv (Fin a) y = Fin 0"
| "fdiv PInf (Fin b) = (if 0 \<le> b then PInf else NInf)"
| "fdiv NInf (Fin b) = (if 0 \<le> b then NInf else PInf)"
| "fdiv x y = NaN"

fun fmul :: "flt \<Rightarrow> flt \<Rightarrow> flt" where
  "fmul NaN y = NaN"
| "fmul x NaN = NaN"
| "fmul (Fin a) (Fin b) = Fin (a * b)"
| "fmul (Fin a) PInf = (if a = 0 then NaN else if 0 < a then PInf else NInf)"
| "fmul (Fin a) NInf = (if a = 0 then NaN else if 0 < a then NInf else PInf)"
| "fmul PInf (Fin b) = (if b = 0 then NaN else if 0 < b then PInf else NInf)"
| "fmul NInf (Fin b) = (if b = 0 then NaN else if 0 < b then NInf else PInf)"
| "fmul PInf PInf = PInf"
| "fmul NInf NInf = PInf"
| "fmul PInf NInf = NInf"
| "fmul NInf PInf = NInf"

fun fadd :: "flt \<Rightarrow> flt \<Rightarrow> flt" where
  "fadd NaN y = NaN"
| "fadd x NaN = NaN"
| "fadd (Fin a) (Fin b) = Fin (a + b)"
| "fadd PInf NInf = NaN"
| "fadd NInf PInf = NaN"
| "fadd PInf y = PInf"
| "fadd NInf y = NInf"
| "fadd (Fin a) y = y"

fun fless :: "flt \<Rightarrow> flt \<Rightarrow> bool" where
  \<comment> \<open>\<^verbatim>\<open>x < y\<close>: false as soon as one side is not a number.\<close>
  "fless NaN y = False"
| "fless x NaN = False"
| "fless (Fin a) (Fin b) = (a < b)"
| "fless x NInf = False"
| "fless NInf y = True"
| "fless PInf y = False"
| "fless (Fin a) PInf = True"

fun math_Max :: "flt \<Rightarrow> flt \<Rightarrow> flt" where
  \<comment> \<open>\<^verbatim>\<open>math.Max\<close>: an infinity on either side first, then not-a-number.\<close>
  "math_Max PInf y = PInf"
| "math_Max x PInf = PInf"
| "math_Max NaN y = NaN"
| "math_Max x NaN = NaN"
| "math_Max NInf y = y"
| "math_Max x NInf = x"
| "math_Max (Fin a) (Fin b) = Fin (max a b)"

fun math_Log :: "flt \<Rightarrow> flt" where
  \<comment> \<open>\<^verbatim>\<open>math.Log\<close>: \<^verbatim>\<open>Log(+Inf) = +Inf\<close>, \<^verbatim>\<open>Log(0) = -Inf\<close>, \<^verbatim>\<open>Log(x < 0) = NaN\<close>,
      \<^verbatim>\<open>Log(NaN) = NaN\<close>.\<close>
  "math_Log NaN = NaN"
| "math_Log NInf = NaN"
| "math_Log PInf = PInf"
| "math_Log (Fin a) = (if a < 0 then NaN else if a = 0 then NInf else Fin (ln a))"

section \<open>Term statistics and scoring (the search program)\<close>

text \<open>
  A Go map is modelled by an association list with distinct keys: the entries of the
  map, in one of the orders in which \<^verbatim>\<open>range\<close> may visit them. Reading a missing key
  gives the zero value. Go's \<^verbatim>\<open>int\<close> is modelled by the unbounded integers: every
  count the indexer writes, and so every sum of the counts of a document, is bounded by
  the number of tokens or documents it has read.
\<close>

type_synonym TermFreq = "(str \<times> int) list"
type_synonym TermFreqTable = "(string \<times> TermFreq) list"
type_synonym DocFreq = "(str \<times> int) list"

definition mget :: "('k \<times> int) list \<Rightarrow> 'k \<Rightarrow> int" where
  \<comment> \<open>\<^verbatim>\<open>m[k]\<close> for a map of integers.\<close>
  "mget m k = (case map_of m k of None \<Rightarrow> 0 | Some v \<Rightarrow> v)"

definition is_gomap :: "('k \<times> 'v) list \<Rightarrow> bool" where
  "is_gomap m = distinct (map fst m)"

definition calculateTF :: "str \<Rightarrow> TermFreq \<Rightarrow> flt" where
  "calculateTF term' tfTable =
     (let sumOfTerms = foldl (\<lambda>s kv. s + snd kv) 0 tfTable
      in fdiv (float32 (mget tfTable term')) (float32 sumOfTerms))"

definition calculateIDF :: "int \<Rightarrow> int \<Rightarrow> flt" where
  "calculateIDF df n =
     float32_of_float64 (math_Log (fdiv (float64 n) (math_Max (float64 df) (Fin 1))))"

record Model =
  TF :: TermFreqTable
  DF :: DocFreq

definition newModel :: Model where
  "newModel = \<lparr>TF = [], DF = []\<rparr>"

record SearchResult =
  Path :: string
  Rank :: flt

definition Less :: "SearchResult \<Rightarrow> SearchResult \<Rightarrow> bool" where
  \<comment> \<open>\<^verbatim>\<open>a[i].Rank < a[j].Rank\<close>, on the two elements.\<close>
  "Less x y = fless (Rank x) (Rank y)"

definition sort_Reverse :: "('a \<Rightarrow> 'a \<Rightarrow> bool) \<Rightarrow> 'a \<Rightarrow> 'a \<Rightarrow> bool" where
  \<comment> \<open>\<^verbatim>\<open>sort.Reverse\<close>: \<^verbatim>\<open>Less(i, j)\<close> of the reversed order is \<^verbatim>\<open>Less(j, i)\<close>.\<close>
  "sort_Reverse lt x y = lt y x"

text \<open>
  \<^verbatim>\<open>sort.Sort\<close> is Go's library. On a short slice it runs insertion sort: for each
  index \<^verbatim>\<open>i\<close> the element moves left while \<^verbatim>\<open>Less(j, j-1)\<close> holds. The model is that
  insertion sort on every length; \<open>sort_insert\<close> takes the sorted prefix reversed, its
  last element first.
\<close>

fun sort_insert :: "('a \<Rightarrow> 'a \<Rightarrow> bool) \<Rightarrow> 'a \<Rightarrow> 'a list \<Rightarrow> 'a list" where
  "sort_insert lt x [] = [x]"
| "sort_insert lt x (y # ys) =
     (if lt x y then y # sort_insert lt x ys else x # y # ys)"

definition sort_Sort :: "('a \<Rightarrow> 'a \<Rightarrow> bool) \<Rightarrow> 'a list \<Rightarrow> 'a list" where
  "sort_Sort lt xs = rev (foldl (\<lambda>sorted x. sort_insert lt x sorted) [] xs)"

definition rank :: "Model \<Rightarrow> str list \<Rightarrow> TermFreq \<Rightarrow> flt" where
  \<comment> \<open>The inner loop of \<^verbatim>\<open>search\<close>: \<^verbatim>\<open>rank += calculateTF(...) * calculateIDF(...)\<close>
      for each query token, from \<^verbatim>\<open>rank = 0\<close>.\<close>
  "rank m tokens tfTable =
     foldl (\<lambda>r token.
              fadd r (fmul (calculateTF token tfTable)
                           (calculateIDF (mget (DF m) token) (int (length (TF m))))))
           (Fin 0) tokens"

definition search :: "unicode \<Rightarrow> Model \<Rightarrow> rune list \<Rightarrow> (fault + SearchResult list) option" where
  "search U m query =
     (case tokenize U query of
        None \<Rightarrow> None
      | Some (Inl e) \<Rightarrow> Some (Inl e)
      | Some (Inr tokens) \<Rightarrow>
          Some (Inr (sort_Sort (sort_Reverse Less)
                       (map (\<lambda>(path, tfTable). \<lparr>Path = path, Rank = rank m tokens tfTable\<rparr>)
                            (TF m)))))"

definition descending :: "SearchResult list \<Rightarrow> bool" where
  \<comment> \<open>No result stands above a result with a greater rank.\<close>
  "descending rs = sorted_wrt (\<lambda>x y. \<not> Less x y) rs"

section \<open>Indexing a folder\<close>

text \<open>
  The operating system is a parameter: what \<^verbatim>\<open>os.ReadDir\<close> lists in a directory (each
  entry with its name and whether it is a directory, and whether the call returns an
  error), what \<^verbatim>\<open>os.ReadFile\<close> reads (the decoded runes of the file, or \<open>None\<close> for an
  error), and \<^verbatim>\<open>path.Join\<close>.
\<close>

record os =
  ReadDir :: "string \<Rightarrow> (string \<times> bool) list \<times> bool"
  ReadFile :: "string \<Rightarrow> rune list option"
  Join :: "string \<Rightarrow> string \<Rightarrow> string"

definition readFile :: "os \<Rightarrow> string \<Rightarrow> fault + rune list" where
  \<comment> \<open>\<^verbatim>\<open>log.Fatal(err)\<close> on an error: the process ends.\<close>
  "readFile sys filePath =
     (case ReadFile sys filePath of None \<Rightarrow> Inl Fatal | Some c \<Rightarrow> Inr c)"

definition readDir :: "os \<Rightarrow> string \<Rightarrow> string list \<times> bool" where
  "readDir sys dirPath =
     (let (dirContent, err) = ReadDir sys dirPath
      in (map (\<lambda>file. Join sys dirPath (fst file)) (filter (\<lambda>file. \<not> snd file) dirContent),
          err))"

partial_function (option) index_loop ::
  "unicode \<Rightarrow> lexer \<Rightarrow> TermFreq \<Rightarrow> (fault + TermFreq) option" where
  \<comment> \<open>The token loop of \<^verbatim>\<open>indexFolder\<close> (and of \<^verbatim>\<open>generateTft\<close>):
      \<^verbatim>\<open>tf[string(token)]++\<close> for each upper-cased token.\<close>
  "index_loop U l tf =
     (case Next U l of
        Inl e \<Rightarrow> Some (Inl e)
      | Inr (token, hasNext, l') \<Rightarrow>
          if \<not> hasNext then Some (Inr tf)
          else (case token of
                  None \<Rightarrow> index_loop U l' tf
                | Some t \<Rightarrow>
                    (let key = map (ToUpper U) t
                     in index_loop U l' (AList.update key (mget tf key + 1) tf))))"

definition bumpDF :: "DocFreq \<Rightarrow> TermFreq \<Rightarrow> DocFreq" where
  \<comment> \<open>\<^verbatim>\<open>for t := range tf { m.DF[t] += 1 }\<close>\<close>
  "bumpDF df tf = foldl (\<lambda>d t. AList.update t (mget d t + 1) d) df (map fst tf)"

fun indexFiles :: "unicode \<Rightarrow> os \<Rightarrow> string list \<Rightarrow> Model \<Rightarrow> (fault + Model) option" where
  \<comment> \<open>The loop of \<^verbatim>\<open>indexFolder\<close> over the paths of the folder.\<close>
  "indexFiles U sys [] m = Some (Inr m)"
| "indexFiles U sys (filePath # paths) m =
     (case readFile sys filePath of
        Inl e \<Rightarrow> Some (Inl e)
      | Inr c \<Rightarrow>
          (case index_loop U (NewLexer c) [] of
             None \<Rightarrow> None
           | Some (Inl e) \<Rightarrow> Some (Inl e)
           | Some (Inr tf) \<Rightarrow>
               indexFiles U sys paths
                 (m\<lparr>DF := bumpDF (DF m) tf, TF := AList.update filePath tf (TF m)\<rparr>)))"

definition indexFolder :: "unicode \<Rightarrow> os \<Rightarrow> Model \<Rightarrow> string \<Rightarrow> (fault + Model) option" where
  "indexFolder U sys m path =
     (let (paths, err) = readDir sys path
      in if err then Some (Inl IOError) else indexFiles U sys paths m)"

section \<open>The batch index builder\<close>

text \<open>
  The second program computes a table of tf-idf values from the term counts. Its
  \<^verbatim>\<open>calculateTF\<close> takes the count of the term, and its \<^verbatim>\<open>calculateIDF\<close> takes the number
  of documents first; they are named \<open>calculateTF_batch\<close> and \<open>calculateIDF_batch\<close> here.
\<close>

type_synonym TfIdf = "(str \<times> flt) list"
type_synonym PathTfIdf = "(string \<times> TfIdf) list"

definition calculateTF_batch :: "int \<Rightarrow> TermFreq \<Rightarrow> flt" where
  "calculateTF_batch count' document =
     (let sumOfTerms = foldl (\<lambda>s kv. s + snd kv) 0 document
      in fdiv (float32 count') (float32 sumOfTerms))"

definition calculateIDF_batch :: "int \<Rightarrow> int \<Rightarrow> flt" where
  "calculateIDF_batch numberOfDocs numberOfDocsWithTerm =
     float32_of_float64
       (math_Log (fdiv (float64 numberOfDocs) (math_Max (float64 numberOfDocsWithTerm) (Fin 1))))"

definition numOfDocsWithTerm :: "str \<Rightarrow> TermFreqTable \<Rightarrow> int" where
  "numOfDocsWithTerm term' table =
     foldl (\<lambda>n pd. if map_of (snd pd) term' \<noteq> None then n + 1 else n) 0 table"

definition tfidfRow :: "TermFreqTable \<Rightarrow> TermFreq \<Rightarrow> TfIdf" where
  \<comment> \<open>The inner loop of \<^verbatim>\<open>calculateTFIDF\<close>, filling \<^verbatim>\<open>t[path]\<close> from an empty map.\<close>
  "tfidfRow table document =
     foldl (\<lambda>row tc.
              (let tf = calculateTF_batch (snd tc) document;
                   idf = calculateIDF_batch (int (length table)) (numOfDocsWithTerm (fst tc) table);
                   tfidf = fmul tf idf
               in if fless (Fin 0) tfidf then AList.update (fst tc) tfidf row else row))
           [] document"

definition calculateTFIDF :: "TermFreqTable \<Rightarrow> PathTfIdf" where
  "calculateTFIDF table =
     foldl (\<lambda>t pd. AList.update (fst pd) (tfidfRow table (snd pd)) t) [] table"

section \<open>Invariants and examples\<close>

definition DF_invariant :: "Model \<Rightarrow> bool" where
  \<comment> \<open>\<^verbatim>\<open>DF[t]\<close> is the number of documents whose term counts have the key \<^verbatim>\<open>t\<close>.\<close>
  "DF_invariant m = (\<forall>t. mget (DF m) t = numOfDocsWithTerm t (TF m))"

definition is_table :: "TermFreqTable \<Rightarrow> bool" where
  \<comment> \<open>The table and each of its documents are Go maps.\<close>
  "is_table table = (is_gomap table \<and> (\<forall>pd \<in> set table. is_gomap (snd pd)))"

definition tfidf_of :: "TermFreqTable \<Rightarrow> TermFreq \<Rightarrow> str \<Rightarrow> int \<Rightarrow> flt" where
  \<comment> \<open>\<^verbatim>\<open>tf * idf\<close> as \<^verbatim>\<open>calculateTFIDF\<close> computes it for a term of a document.\<close>
  "tfidf_of table document t count' =
     fmul (calculateTF_batch count' document)
          (calculateIDF_batch (int (length table)) (numOfDocsWithTerm t table))"

definition row_step :: "TermFreqTable \<Rightarrow> TermFreq \<Rightarrow> TfIdf \<Rightarrow> str \<times> int \<Rightarrow> TfIdf" where
  \<comment> \<open>One round of the inner loop of \<^verbatim>\<open>calculateTFIDF\<close>.\<close>
  "row_step table document row tc =
     (if fless (Fin 0) (tfidf_of table document (fst tc) (snd tc))
      then AList.update (fst tc) (tfidf_of table document (fst tc) (snd tc)) row else row)"

text \<open>
  A folder with three files and a subdirectory, and the model that indexing it builds.
\<close>

definition example_os :: os where
  "example_os =
     \<lparr>ReadDir = (\<lambda>d. ([(''1.txt'', False), (''img'', True), (''2.txt'', False),
                        (''3.txt'', False)], False)),
      ReadFile = (\<lambda>p. if p = ''docs/1.txt'' then Some (runes ''cat cat dog'')
                       else if p = ''docs/2.txt'' then Some (runes ''dog <b>dog</b> fish'')
                       else if p = ''docs/3.txt'' then Some (runes ''cat fish fish'')
                       else None),
      Join = (\<lambda>d n. d @ ''/'' @ n)\<rparr>"

definition example_model :: Model where
  "example_model =
     \<lparr>TF = [(''docs/1.txt'', [(runes ''CAT'', 2), (runes ''DOG'', 1)]),
            (''docs/2.txt'', [(runes ''DOG'', 2), (runes ''FISH'', 1)]),
            (''docs/3.txt'', [(runes ''CAT'', 1), (runes ''FISH'', 2)])],
      DF = [(runes ''CAT'', 2), (runes ''DOG'', 2), (runes ''FISH'', 2)]\<rparr>"

text \<open>
  The model of a folder whose second file is empty: the files hold \<^verbatim>\<open>a b\<close>, nothing,
  and \<^verbatim>\<open>a\<close>.
\<close>

definition empty_doc_model :: Model where
  "empty_doc_model =
     \<lparr>TF = [(''d1'', [(runes ''A'', 1), (runes ''B'', 1)]), (''d2'', []),
            (''d3'', [(runes ''A'', 1)])],
      DF = [(runes ''A'', 2), (runes ''B'', 1)]\<rparr>"

definition example_table :: TermFreqTable where
  "example_table =
     [(''d1'', [(runes ''CAT'', 2), (runes ''DOG'', 1)]), (''d2'', [(runes ''CAT'', 1)])]"

section \<open>Properties of the lexer\<close>

lemma skipSpace_length: "length (skipSpace U cs) \<le> length cs"
  by (induction cs) (auto intro: le_SucI)

lemma countWhile_le: "countWhile p cs \<le> length cs"
  by (induction cs) auto

lemma countWhile_pos: "cs \<noteq> [] \<Longrightarrow> p (hd cs) \<Longrightarrow> 0 < countWhile p cs"
  by (cases cs) auto

lemma Next_shrinks:
  assumes "Next U l = Inr (tok, True, l')"
  shows "length (content l') < length (content l)"
proof -
  let ?c = "skipSpace U (content l)"
  have le: "length ?c \<le> length (content l)" by (rule skipSpace_length)
  show ?thesis
  proof (cases "?c = []")
    case True
    with assms show ?thesis by (simp add: Next_def trimLeft_def)
  next
    case False
    then have pos: "0 < length ?c" by simp
    show ?thesis
    proof (cases "hd ?c = 60")
      case True
      with assms False le show ?thesis
        by (auto simp: Next_def trimLeft_def Let_def split: if_splits)
    next
      case tag: False
      show ?thesis
      proof (cases "IsNumber U (hd ?c)")
        case True
        from countWhile_pos [OF False, of "\<lambda>r. IsNumber U r"] True
        have "0 < countWhile (\<lambda>r. IsNumber U r) ?c" by simp
        with assms False tag True le pos show ?thesis
          by (auto simp: Next_def trimLeft_def chopWhile_def chop_def Let_def
                   split: if_splits)
      next
        case num: False
        show ?thesis
        proof (cases "IsLetter U (hd ?c)")
          case True
          from countWhile_pos [OF False, of "\<lambda>r. IsLetter U r \<or> IsNumber U r"] True
          have "0 < countWhile (\<lambda>r. IsLetter U r \<or> IsNumber U r) ?c" by simp
          with assms False tag num True le pos show ?thesis
            by (auto simp: Next_def trimLeft_def chopWhile_def chop_def Let_def
                     split: if_splits)
        next
          case False
          from pos le have "length ?c - Suc 0 < length (content l)" by arith
          with assms \<open>?c \<noteq> []\<close> tag num False show ?thesis
            by (auto simp: Next_def trimLeft_def chop_def Let_def split: if_splits)
        qed
      qed
    qed
  qed
qed

lemma tokenize_loop_returns: "\<exists>r. tokenize_loop U l result = Some r"
proof (induction "length (content l)" arbitrary: l result rule: less_induct)
  case less
  show ?case
  proof (cases "Next U l")
    case (Inl e)
    then show ?thesis by (subst tokenize_loop.simps) simp
  next
    case (Inr p)
    obtain token hasNext l' where p: "p = (token, hasNext, l')" by (cases p)
    show ?thesis
    proof (cases hasNext)
      case False
      with Inr p show ?thesis by (subst tokenize_loop.simps) simp
    next
      case True
      with Inr p have "length (content l') < length (content l)"
        by (auto intro: Next_shrinks)
      from less [OF this] Inr p True show ?thesis
        by (subst tokenize_loop.simps) (simp split: option.split)
    qed
  qed
qed

lemmas lexer_eval =
  tokenize_def NewLexer_def tokenize_loop.simps Next_def trimLeft_def chopWhile_def chop_def
  IsSpace_def IsNumber_def IsLetter_def ToUpper_def isASCII_def runes_def Let_def

text \<open>
  C2. The claim: \<^verbatim>\<open>Next\<close> completes without a fault on every input, also on a
  \<^verbatim>\<open><\<close> with no \<^verbatim>\<open>>\<close> after it, where it consumes to the end of the input. The code
  scans to \<^verbatim>\<open>n = len(l.content)\<close> and then slices \<^verbatim>\<open>l.content[n+1:]\<close>, one past the
  end: on the input \<^verbatim>\<open><b\<close> the call panics.
\<close>

theorem Next_unterminated_tag_panics:
  "Next U (NewLexer (runes ''<b'')) = Inl SliceBounds"
  by (simp add: lexer_eval)

text \<open>The same for every input whose next tag is not closed.\<close>

lemma countWhile_all: "(\<forall>c \<in> set cs. p c) \<Longrightarrow> countWhile p cs = length cs"
  by (induction cs) auto

lemma Next_open_tag_panics:
  assumes "skipSpace U cs = 60 # rest" and "62 \<notin> set rest"
  shows "Next U (NewLexer cs) = Inl SliceBounds"
proof -
  from assms(2) have "countWhile (\<lambda>r. r \<noteq> 62) rest = length rest"
    by (intro countWhile_all) auto
  with assms(1) show ?thesis
    by (simp add: Next_def NewLexer_def trimLeft_def Let_def)
qed

text \<open>
  A tag that is closed is consumed through its \<^verbatim>\<open>>\<close>, with no token and with
  \<^verbatim>\<open>hasNext\<close> true.
\<close>

lemma countWhile_less: "\<not> (\<forall>c \<in> set cs. p c) \<Longrightarrow> countWhile p cs < length cs"
  by (induction cs) auto

lemma drop_countWhile: "drop (countWhile p cs) cs = dropWhile p cs"
  by (induction cs) auto

lemma Next_closed_tag:
  assumes "skipSpace U cs = 60 # rest" and "62 \<in> set rest"
  shows "Next U (NewLexer cs)
           = Inr (None, True, \<lparr>content = tl (dropWhile (\<lambda>r. r \<noteq> 62) rest)\<rparr>)"
proof -
  let ?n = "countWhile (\<lambda>r. r \<noteq> 62) rest"
  from assms(2) have "?n < length rest"
    by (intro countWhile_less) auto
  moreover have "drop (Suc ?n) rest = tl (dropWhile (\<lambda>r. r \<noteq> 62) rest)"
    by (simp add: drop_Suc drop_countWhile flip: tl_drop)
  ultimately show ?thesis using assms(1)
    by (simp add: Next_def NewLexer_def trimLeft_def Let_def)
qed

text \<open>
  C6. Tokenizing \<^verbatim>\<open>a<b>c\<close> gives exactly the tokens \<^verbatim>\<open>A\<close> and \<^verbatim>\<open>C\<close>: the tag is
  consumed whole, no empty token stands for it, and the tokens are upper-cased.
\<close>

theorem tokenize_strips_tag:
  "tokenize U (runes ''a<b>c'') = Some (Inr [runes ''A'', runes ''C''])"
  by (simp add: lexer_eval)

text \<open>
  C7. Tokenizing \<^verbatim>\<open>abc123 42\<close> gives exactly \<^verbatim>\<open>ABC123\<close> and \<^verbatim>\<open>42\<close>: a run that starts
  with a letter takes the digits after it, a run that starts with a digit is the digits.
\<close>

theorem tokenize_mixed_class:
  "tokenize U (runes ''abc123 42'') = Some (Inr [runes ''ABC123'', runes ''42''])"
  by (simp add: lexer_eval)

text \<open>
  C9. Every call of \<^verbatim>\<open>Next\<close> that returns with \<^verbatim>\<open>hasNext\<close> true leaves strictly fewer
  runes in the lexer than it found, and so the loop of \<^verbatim>\<open>tokenize\<close> ends on every
  input: it returns the list of tokens, or it stops with the panic of an unclosed tag.
\<close>

theorem tokenizer_terminates:
  "(Next U l = Inr (tok, True, l') \<longrightarrow> length (content l') < length (content l))
   \<and> (\<exists>r. tokenize U s = Some r)"
  using Next_shrinks [of U l tok l'] tokenize_loop_returns [of U "NewLexer s" "[]"]
  by (simp add: tokenize_def)

theorem tokenizer_terminates_witness:
  "Next ascii_only (NewLexer (runes ''a<b>c''))
     = Inr (Some (runes ''a''), True, NewLexer (runes ''<b>c''))
   \<and> length (content (NewLexer (runes ''<b>c''))) < length (content (NewLexer (runes ''a<b>c'')))
   \<and> (\<exists>r. tokenize ascii_only (runes ''a<b>c'') = Some r)"
  using tokenizer_terminates
    [of ascii_only "NewLexer (runes ''a<b>c'')" "Some (runes ''a'')" "NewLexer (runes ''<b>c'')"
        "runes ''a<b>c''"]
  by (simp add: Next_def NewLexer_def trimLeft_def chopWhile_def chop_def
        IsSpace_def IsNumber_def IsLetter_def isASCII_def runes_def Let_def)

section \<open>Properties of the scorer\<close>

text \<open>
  C1. The claim: for a document whose term counts are empty, \<^verbatim>\<open>calculateTF\<close> returns 0
  and not NaN. The code divides \<^verbatim>\<open>float32(0)\<close> by \<^verbatim>\<open>float32(0)\<close> with no test of the
  divisor, and the quotient is NaN, for every term.
\<close>

theorem calculateTF_empty_document:
  "calculateTF t [] = NaN"
  by (simp add: calculateTF_def float32_def mget_def)

text \<open>
  C5. For a corpus of at least one document \<^verbatim>\<open>calculateIDF\<close> returns
  \<open>ln (totalDocs / max df 1)\<close>, in both programs (the batch builder takes the number of
  documents first); for no document it returns \<^verbatim>\<open>Log(0)\<close>, minus infinity. For a
  term with \<open>df = 0\<close> and more than one document the value is \<open>ln totalDocs\<close>, finite and
  positive.
\<close>

theorem calculateIDF_formula:
  "(0 < n \<longrightarrow> calculateIDF df n = Fin (ln (real_of_int n / real_of_int (max df 1))))
   \<and> (0 < n \<longrightarrow> calculateIDF_batch n df = Fin (ln (real_of_int n / real_of_int (max df 1))))
   \<and> calculateIDF df 0 = NInf
   \<and> (1 < n \<longrightarrow> calculateIDF 0 n = Fin (ln (real_of_int n)) \<and> 0 < ln (real_of_int n))"
  by (auto simp: calculateIDF_def calculateIDF_batch_def float64_def float32_of_float64_def
        max_def divide_simps)

theorem calculateIDF_formula_witness:
  "calculateIDF 2 3 = Fin (ln (3 / 2)) \<and> calculateIDF_batch 3 2 = Fin (ln (3 / 2))
   \<and> calculateIDF 2 0 = NInf
   \<and> calculateIDF 0 3 = Fin (ln 3) \<and> 0 < ln (3 :: real)"
  using calculateIDF_formula [of 3 2] by simp

section \<open>Ranking\<close>

text \<open>
  The sort returns the results it was given, in an order that is descending whenever
  the comparison is asymmetric and its negation is transitive on them. The comparison
  of ranks is such as long as no rank is NaN.
\<close>

lemma mset_sort_insert: "mset (sort_insert lt x ys) = add_mset x (mset ys)"
  by (induction ys) auto

lemma mset_sort_fold:
  "mset (foldl (\<lambda>sorted x. sort_insert lt x sorted) acc xs) = mset acc + mset xs"
  by (induction xs arbitrary: acc) (auto simp: mset_sort_insert)

lemma mset_sort_Sort: "mset (sort_Sort lt xs) = mset xs"
  by (simp add: sort_Sort_def mset_sort_fold)

lemma set_sort_insert: "set (sort_insert lt x ys) = insert x (set ys)"
  by (induction ys) auto

lemma sorted_sort_insert:
  assumes asym: "\<And>a b. a \<in> S \<Longrightarrow> b \<in> S \<Longrightarrow> lt a b \<Longrightarrow> \<not> lt b a"
    and ntrans: "\<And>a b c. a \<in> S \<Longrightarrow> b \<in> S \<Longrightarrow> c \<in> S \<Longrightarrow>
                   \<not> lt a b \<Longrightarrow> \<not> lt b c \<Longrightarrow> \<not> lt a c"
  shows "x \<in> S \<Longrightarrow> set ys \<subseteq> S \<Longrightarrow> sorted_wrt (\<lambda>a b. \<not> lt a b) ys \<Longrightarrow>
         sorted_wrt (\<lambda>a b. \<not> lt a b) (sort_insert lt x ys)"
proof (induction ys)
  case Nil
  then show ?case by simp
next
  case (Cons y ys)
  from Cons.prems have xS: "x \<in> S" and yS: "y \<in> S" and ysS: "set ys \<subseteq> S"
    and y_ys: "\<forall>z \<in> set ys. \<not> lt y z" and s_ys: "sorted_wrt (\<lambda>a b. \<not> lt a b) ys"
    by auto
  show ?case
  proof (cases "lt x y")
    case True
    from asym [OF xS yS True] have "\<not> lt y x" .
    moreover from Cons.IH [OF xS ysS s_ys]
    have "sorted_wrt (\<lambda>a b. \<not> lt a b) (sort_insert lt x ys)" .
    ultimately show ?thesis using True y_ys by (simp add: set_sort_insert)
  next
    case False
    have "\<forall>z \<in> set ys. \<not> lt x z"
    proof
      fix z assume z: "z \<in> set ys"
      with ysS have "z \<in> S" by auto
      from ntrans [OF xS yS this False] y_ys z show "\<not> lt x z" by simp
    qed
    with False y_ys s_ys show ?thesis by simp
  qed
qed

lemma sorted_sort_fold:
  assumes asym: "\<And>a b. a \<in> S \<Longrightarrow> b \<in> S \<Longrightarrow> lt a b \<Longrightarrow> \<not> lt b a"
    and ntrans: "\<And>a b c. a \<in> S \<Longrightarrow> b \<in> S \<Longrightarrow> c \<in> S \<Longrightarrow>
                   \<not> lt a b \<Longrightarrow> \<not> lt b c \<Longrightarrow> \<not> lt a c"
  shows "set xs \<subseteq> S \<Longrightarrow> set acc \<subseteq> S \<Longrightarrow> sorted_wrt (\<lambda>a b. \<not> lt a b) acc \<Longrightarrow>
         sorted_wrt (\<lambda>a b. \<not> lt a b) (foldl (\<lambda>sorted x. sort_insert lt x sorted) acc xs)"
proof (induction xs arbitrary: acc)
  case Nil
  then show ?case by simp
next
  case (Cons x xs)
  from Cons.prems have xS: "x \<in> S" and xsS: "set xs \<subseteq> S" by auto
  have "sorted_wrt (\<lambda>a b. \<not> lt a b) (sort_insert lt x acc)"
    using asym ntrans xS Cons.prems(2,3) by (rule sorted_sort_insert)
  moreover from xS Cons.prems(2) have "set (sort_insert lt x acc) \<subseteq> S"
    by (simp add: set_sort_insert)
  ultimately show ?case using Cons.IH [OF xsS] by simp
qed

lemma sorted_sort_Sort:
  assumes asym: "\<And>a b. a \<in> set xs \<Longrightarrow> b \<in> set xs \<Longrightarrow> lt a b \<Longrightarrow> \<not> lt b a"
    and ntrans: "\<And>a b c. a \<in> set xs \<Longrightarrow> b \<in> set xs \<Longrightarrow> c \<in> set xs \<Longrightarrow>
                   \<not> lt a b \<Longrightarrow> \<not> lt b c \<Longrightarrow> \<not> lt a c"
  shows "sorted_wrt (\<lambda>a b. \<not> lt b a) (sort_Sort lt xs)"
proof -
  have "sorted_wrt (\<lambda>a b. \<not> lt a b) (foldl (\<lambda>sorted x. sort_insert lt x sorted) [] xs)"
    by (rule sorted_sort_fold [where S = "set xs", OF asym ntrans subset_refl]) simp_all
  then show ?thesis
    by (simp add: sort_Sort_def sorted_wrt_rev)
qed

lemma fless_asym: "fless a b \<Longrightarrow> \<not> fless b a"
  by (cases a; cases b) simp_all

lemma fless_ntrans:
  "a \<noteq> NaN \<Longrightarrow> b \<noteq> NaN \<Longrightarrow> c \<noteq> NaN \<Longrightarrow> \<not> fless a b \<Longrightarrow> \<not> fless b c \<Longrightarrow> \<not> fless a c"
  by (cases a; cases b; cases c) simp_all

text \<open>
  When the query is tokenized without a panic and every rank is a number, \<^verbatim>\<open>search\<close>
  returns one result for each entry of \<^verbatim>\<open>m.TF\<close>, with the sum over the query tokens
  as its rank, in descending order.
\<close>

lemma search_ranking:
  assumes tok: "tokenize U q = Some (Inr tokens)"
    and num: "\<forall>pt \<in> set (TF m). rank m tokens (snd pt) \<noteq> NaN"
  shows "\<exists>rs. search U m q = Some (Inr rs)
           \<and> mset rs = mset (map (\<lambda>(path, tfTable).
                                     \<lparr>Path = path, Rank = rank m tokens tfTable\<rparr>) (TF m))
           \<and> descending rs"
proof -
  let ?xs = "map (\<lambda>(path, tfTable). \<lparr>Path = path, Rank = rank m tokens tfTable\<rparr>) (TF m)"
  have s: "search U m q = Some (Inr (sort_Sort (sort_Reverse Less) ?xs))"
    using tok by (simp add: search_def)
  have nn: "Rank x \<noteq> NaN" if "x \<in> set ?xs" for x
    using that num by auto
  have "sorted_wrt (\<lambda>a b. \<not> sort_Reverse Less b a) (sort_Sort (sort_Reverse Less) ?xs)"
  proof (rule sorted_sort_Sort)
    fix a b assume "sort_Reverse Less a b"
    then show "\<not> sort_Reverse Less b a"
      by (simp add: sort_Reverse_def Less_def fless_asym)
  next
    fix a b c assume "a \<in> set ?xs" "b \<in> set ?xs" "c \<in> set ?xs"
      and "\<not> sort_Reverse Less a b" "\<not> sort_Reverse Less b c"
    then show "\<not> sort_Reverse Less a c"
      using fless_ntrans [of "Rank c" "Rank b" "Rank a"] nn
      by (simp add: sort_Reverse_def Less_def)
  qed
  then have "descending (sort_Sort (sort_Reverse Less) ?xs)"
    by (simp add: descending_def sort_Reverse_def)
  with s show ?thesis by (simp add: mset_sort_Sort)
qed

text \<open>
  The ranking scenario of three documents \<^verbatim>\<open>cat cat dog\<close>, \<^verbatim>\<open>dog dog fish\<close> and
  \<^verbatim>\<open>cat fish fish\<close>: the query \<^verbatim>\<open>cat\<close> ranks the first and the third above the second,
  whose score is 0.
\<close>

lemma example_search:
  "search U example_model (runes ''cat'')
     = Some (Inr [\<lparr>Path = ''docs/1.txt'', Rank = Fin (2 / 3 * ln (3 / 2))\<rparr>,
                  \<lparr>Path = ''docs/3.txt'', Rank = Fin (ln (3 / 2) / 3)\<rparr>,
                  \<lparr>Path = ''docs/2.txt'', Rank = Fin 0\<rparr>])"
  by (simp add: search_def lexer_eval example_model_def rank_def calculateTF_def
        calculateIDF_def mget_def float32_def float64_def float32_of_float64_def
        sort_Sort_def sort_Reverse_def Less_def)

text \<open>
  An empty document has the rank NaN for every query with a token, and a query with an
  unclosed tag ends the search with the panic of the lexer.
\<close>

lemma fadd_NaN: "fadd r NaN = NaN"
  by (cases r) simp_all

lemma fold_NaN: "foldl (\<lambda>r token. fadd r NaN) NaN tokens = NaN"
  by (induction tokens) simp_all

lemma rank_empty_document: "tokens \<noteq> [] \<Longrightarrow> rank m tokens [] = NaN"
  by (cases tokens) (simp_all add: rank_def calculateTF_def float32_def mget_def fold_NaN)

lemma search_open_tag_panics: "search U m (runes ''<b'') = Some (Inl SliceBounds)"
  by (simp add: search_def lexer_eval)

text \<open>
  C4. The claim: for every model and every query, \<^verbatim>\<open>search\<close> returns one result per
  document, each with the sum of tf times idf over the query tokens, sorted by
  descending score. In a model with an empty document the rank of that document is NaN
  (the quotient of C1), every comparison with it is false, and the sort leaves a
  document with a smaller score above one with a greater score.
\<close>

theorem search_with_empty_document:
  "search U empty_doc_model (runes ''a'')
     = Some (Inr [\<lparr>Path = ''d1'', Rank = Fin (ln (3 / 2) / 2)\<rparr>,
                  \<lparr>Path = ''d2'', Rank = NaN\<rparr>,
                  \<lparr>Path = ''d3'', Rank = Fin (ln (3 / 2))\<rparr>])
   \<and> \<not> descending [\<lparr>Path = ''d1'', Rank = Fin (ln (3 / 2) / 2)\<rparr>,
                     \<lparr>Path = ''d2'', Rank = NaN\<rparr>,
                     \<lparr>Path = ''d3'', Rank = Fin (ln (3 / 2))\<rparr>]"
  by (simp add: search_def lexer_eval empty_doc_model_def rank_def calculateTF_def
        calculateIDF_def mget_def float32_def float64_def float32_of_float64_def
        sort_Sort_def sort_Reverse_def Less_def descending_def)

section \<open>The document-frequency invariant\<close>

lemma mget_update: "mget (AList.update k v m) k' = (if k' = k then v else mget m k')"
  by (simp add: mget_def update_conv')

lemma bump_fold:
  "distinct ks \<Longrightarrow>
   mget (foldl (\<lambda>d t. AList.update t (mget d t + 1) d) df ks) t
     = mget df t + (if t \<in> set ks then 1 else 0)"
proof (induction ks arbitrary: df)
  case Nil
  then show ?case by simp
next
  case (Cons k ks)
  then show ?case by (auto simp: mget_update)
qed

lemma mget_bumpDF:
  "is_gomap tf \<Longrightarrow>
   mget (bumpDF df tf) t = mget df t + (if map_of tf t \<noteq> None then 1 else 0)"
  unfolding bumpDF_def is_gomap_def
  by (simp add: bump_fold map_of_eq_None_iff image_iff)

lemma index_loop_gomap:
  "index_loop U l tf = Some (Inr tf') \<Longrightarrow> is_gomap tf \<Longrightarrow> is_gomap tf'"
proof (induction "length (content l)" arbitrary: l tf rule: less_induct)
  case less
  show ?case
  proof (cases "Next U l")
    case (Inl e)
    with less.prems(1) show ?thesis by (subst (asm) index_loop.simps) simp
  next
    case (Inr p)
    obtain token hasNext l' where p: "p = (token, hasNext, l')" by (cases p)
    show ?thesis
    proof (cases hasNext)
      case False
      with Inr p less.prems show ?thesis by (subst (asm) index_loop.simps) simp
    next
      case True
      with Inr p have shorter: "length (content l') < length (content l)"
        by (auto intro: Next_shrinks)
      show ?thesis
      proof (cases token)
        case None
        with Inr p True less.prems(1) have "index_loop U l' tf = Some (Inr tf')"
          by (subst (asm) index_loop.simps) simp
        from less.hyps [OF shorter this less.prems(2)] show ?thesis .
      next
        case (Some t)
        let ?key = "map (ToUpper U) t"
        let ?tf = "AList.update ?key (mget tf ?key + 1) tf"
        from Some Inr p True less.prems(1) have run: "index_loop U l' ?tf = Some (Inr tf')"
          by (subst (asm) index_loop.simps) (simp add: Let_def)
        from less.prems(2) have "is_gomap ?tf"
          by (simp add: is_gomap_def distinct_update)
        from less.hyps [OF shorter run this] show ?thesis .
      qed
    qed
  qed
qed

lemma numOfDocs_fold:
  "foldl (\<lambda>n pd. if map_of (snd pd) t \<noteq> None then n + 1 else n) (k::int) table
     = k + int (length (filter (\<lambda>pd. map_of (snd pd) t \<noteq> None) table))"
  by (induction table arbitrary: k) auto

lemma numOfDocsWithTerm_count:
  "numOfDocsWithTerm t table = int (length (filter (\<lambda>pd. map_of (snd pd) t \<noteq> None) table))"
  unfolding numOfDocsWithTerm_def numOfDocs_fold by simp

lemma update_fresh: "k \<notin> fst ` set al \<Longrightarrow> AList.update k v al = al @ [(k, v)]"
  by (induction al) auto

lemma numOfDocsWithTerm_update:
  "p \<notin> fst ` set table \<Longrightarrow>
   numOfDocsWithTerm t (AList.update p tf table)
     = numOfDocsWithTerm t table + (if map_of tf t \<noteq> None then 1 else 0)"
  by (simp add: update_fresh numOfDocsWithTerm_count)

lemma indexFiles_invariant:
  "indexFiles U sys paths m = Some (Inr m') \<Longrightarrow> DF_invariant m \<Longrightarrow> is_gomap (TF m) \<Longrightarrow>
   distinct paths \<Longrightarrow> set paths \<inter> fst ` set (TF m) = {} \<Longrightarrow>
   DF_invariant m' \<and> is_gomap (TF m')"
proof (induction paths arbitrary: m)
  case Nil
  then show ?case by simp
next
  case (Cons p paths)
  from Cons.prems(1) obtain c tf where
    c: "readFile sys p = Inr c" and tf: "index_loop U (NewLexer c) [] = Some (Inr tf)"
    and rest: "indexFiles U sys paths
                 (m\<lparr>DF := bumpDF (DF m) tf, TF := AList.update p tf (TF m)\<rparr>) = Some (Inr m')"
    by (auto split: sum.splits option.splits)
  let ?m = "m\<lparr>DF := bumpDF (DF m) tf, TF := AList.update p tf (TF m)\<rparr>"
  from index_loop_gomap [OF tf] have g: "is_gomap tf" by (simp add: is_gomap_def)
  from Cons.prems(5) have fresh: "p \<notin> fst ` set (TF m)" by auto
  from Cons.prems(2) have inv: "DF_invariant ?m"
    by (simp add: DF_invariant_def mget_bumpDF [OF g] numOfDocsWithTerm_update [OF fresh])
  from Cons.prems(3) have gm: "is_gomap (TF ?m)" by (simp add: is_gomap_def distinct_update)
  from Cons.prems(4,5) have disj: "set paths \<inter> fst ` set (TF ?m) = {}"
    by (auto simp: dom_update)
  from Cons.prems(4) have "distinct paths" by simp
  from Cons.IH [OF rest inv gm this disj] show ?case .
qed

lemma newModel_invariant: "DF_invariant newModel \<and> is_gomap (TF newModel)"
  by (simp add: DF_invariant_def newModel_def mget_def numOfDocsWithTerm_def is_gomap_def)

lemma example_paths:
  "readDir example_os ''docs'' = ([''docs/1.txt'', ''docs/2.txt'', ''docs/3.txt''], False)"
  by (simp add: readDir_def example_os_def)

lemma example_index:
  "indexFolder ascii_only example_os newModel ''docs'' = Some (Inr example_model)"
  unfolding indexFolder_def example_paths
  by (simp add: readFile_def example_os_def newModel_def example_model_def
        index_loop.simps lexer_eval mget_def bumpDF_def)

text \<open>
  C3. A folder whose paths are distinct and new to the model is indexed into a model
  that had the invariant: in the model returned, \<^verbatim>\<open>DF[t]\<close> is the number of documents
  whose term counts contain \<^verbatim>\<open>t\<close>, for every token \<^verbatim>\<open>t\<close>. The empty model of
  \<^verbatim>\<open>newModel\<close> is such a start. One document adds exactly one to \<^verbatim>\<open>DF[t]\<close> for each
  of its distinct tokens, whatever the count of the token in the document.
\<close>

theorem indexFolder_DF_invariant:
  assumes "indexFolder U sys m0 dir = Some (Inr m)"
    and "DF_invariant m0" and "is_gomap (TF m0)"
    and "distinct (fst (readDir sys dir))"
    and "set (fst (readDir sys dir)) \<inter> fst ` set (TF m0) = {}"
  shows "mget (DF m) t = numOfDocsWithTerm t (TF m)
         \<and> (is_gomap tf \<longrightarrow>
              mget (bumpDF df tf) t = mget df t + (if map_of tf t \<noteq> None then 1 else 0))"
proof -
  obtain paths err where r: "readDir sys dir = (paths, err)" by (cases "readDir sys dir")
  with assms(1) have "indexFiles U sys paths m0 = Some (Inr m)"
    by (simp add: indexFolder_def split: if_splits)
  from indexFiles_invariant [OF this assms(2,3)] assms(4,5) r
  have "DF_invariant m" by simp
  then show ?thesis by (simp add: DF_invariant_def mget_bumpDF)
qed

theorem indexFolder_DF_invariant_witness:
  "indexFolder ascii_only example_os newModel ''docs'' = Some (Inr example_model)
   \<and> mget (DF example_model) (runes ''DOG'') = 2
   \<and> numOfDocsWithTerm (runes ''DOG'') (TF example_model) = 2
   \<and> mget (bumpDF [] [(runes ''CAT'', 2), (runes ''DOG'', 1)]) (runes ''CAT'') = 1"
  using indexFolder_DF_invariant
    [OF example_index, of "runes ''DOG''" "[(runes ''CAT'', 2), (runes ''DOG'', 1)]" "[]"]
    newModel_invariant example_index
  by (simp add: example_paths newModel_def example_model_def mget_def bumpDF_def
        numOfDocsWithTerm_def runes_def is_gomap_def)

section \<open>The batch index builder keeps positive values only\<close>

lemma fmul_zero_not_positive: "\<not> fless (Fin 0) (fmul x (Fin 0))"
  by (cases x) auto

lemma idf_batch_all_docs: "0 < n \<Longrightarrow> calculateIDF_batch n n = Fin 0"
  by (simp add: calculateIDF_batch_def float64_def float32_of_float64_def)

lemma tfidfRow_fold: "tfidfRow table document = foldl (row_step table document) [] document"
proof -
  have "row_step table document =
    (\<lambda>row tc.
       (let tf = calculateTF_batch (snd tc) document;
            idf = calculateIDF_batch (int (length table)) (numOfDocsWithTerm (fst tc) table);
            tfidf = fmul tf idf
        in if fless (Fin 0) tfidf then AList.update (fst tc) tfidf row else row))"
    by (intro ext) (simp add: row_step_def tfidf_of_def Let_def)
  then show ?thesis by (simp add: tfidfRow_def)
qed

lemma row_fold_entry:
  "map_of (foldl (row_step table document) acc xs) t = Some v \<Longrightarrow>
   map_of acc t = Some v \<or>
   (\<exists>count'. (t, count') \<in> set xs \<and> v = tfidf_of table document t count' \<and> fless (Fin 0) v)"
proof (induction xs arbitrary: acc)
  case Nil
  then show ?case by simp
next
  case (Cons tc xs)
  from Cons.IH [OF Cons.prems [simplified]]
  show ?case
    by (cases tc) (auto simp: row_step_def update_conv' split: if_splits)
qed

lemma tfidfRow_entry:
  "map_of (tfidfRow table document) t = Some v \<Longrightarrow>
   \<exists>count'. (t, count') \<in> set document \<and> v = tfidf_of table document t count' \<and> fless (Fin 0) v"
  using row_fold_entry [of table document "[]" document t v] by (simp add: tfidfRow_fold)

lemma table_fold_entry:
  "map_of (foldl (\<lambda>t pd. AList.update (fst pd) (f (snd pd)) t) acc xs) path = Some row \<Longrightarrow>
   map_of acc path = Some row \<or> (\<exists>d. (path, d) \<in> set xs \<and> row = f d)"
proof (induction xs arbitrary: acc)
  case Nil
  then show ?case by simp
next
  case (Cons pd xs)
  from Cons.IH [OF Cons.prems [simplified]]
  show ?case
    by (cases pd) (auto simp: update_conv' split: if_splits)
qed

lemma calculateTFIDF_entry:
  "map_of (calculateTFIDF table) path = Some row \<Longrightarrow>
   \<exists>d. (path, d) \<in> set table \<and> row = tfidfRow table d"
  using table_fold_entry [of "tfidfRow table" "[]" table path row]
  by (simp add: calculateTFIDF_def)

lemma numOfDocsWithTerm_all:
  "\<forall>pd \<in> set table. map_of (snd pd) t \<noteq> None \<Longrightarrow>
   numOfDocsWithTerm t table = int (length table)"
  by (simp add: numOfDocsWithTerm_count)

lemma tfidf_of_all_docs:
  assumes "\<forall>pd \<in> set table. map_of (snd pd) t \<noteq> None" and "table \<noteq> []"
  shows "\<not> fless (Fin 0) (tfidf_of table document t count')"
proof -
  from assms(2) have "0 < int (length table)" by simp
  with assms(1) show ?thesis
    by (simp add: tfidf_of_def numOfDocsWithTerm_all idf_batch_all_docs fmul_zero_not_positive)
qed

lemma row_fold_noop:
  "\<forall>tc \<in> set xs. \<not> fless (Fin 0) (tfidf_of table document (fst tc) (snd tc)) \<Longrightarrow>
   foldl (row_step table document) acc xs = acc"
  by (induction xs arbitrary: acc) (auto simp: row_step_def)

lemma example_tfidf:
  "calculateTFIDF example_table = [(''d1'', [(runes ''DOG'', Fin (ln 2 / 3))]), (''d2'', [])]"
  by (simp add: calculateTFIDF_def example_table_def tfidfRow_def calculateTF_batch_def
        calculateIDF_batch_def numOfDocsWithTerm_def float32_def float64_def
        float32_of_float64_def runes_def Let_def)

text \<open>
  C10. In the table that \<^verbatim>\<open>calculateTFIDF\<close> returns for a table of term counts, every
  entry of a document is the product tf times idf of a term of that document, and the
  product is strictly positive. So a term that every document contains has no entry in
  any document (its idf is \<open>ln 1 = 0\<close>), and for a table of one document the entry of
  the document is empty.
\<close>

theorem calculateTFIDF_positive_only:
  assumes "is_table table"
  shows "(map_of (calculateTFIDF table) path = Some row \<and> map_of row t = Some v \<longrightarrow>
            fless (Fin 0) v \<and>
            (\<exists>document count'.
               map_of table path = Some document \<and> map_of document t = Some count' \<and>
               v = fmul (calculateTF_batch count' document)
                        (calculateIDF_batch (int (length table)) (numOfDocsWithTerm t table))))
       \<and> (map_of (calculateTFIDF table) path = Some row
            \<and> (\<forall>pd \<in> set table. map_of (snd pd) t' \<noteq> None)
            \<longrightarrow> map_of row t' = None)
       \<and> calculateTFIDF [(p, d)] = [(p, [])]"
proof (intro conjI impI)
  assume a: "map_of (calculateTFIDF table) path = Some row \<and> map_of row t = Some v"
  then obtain document where d: "(path, document) \<in> set table"
    and row: "row = tfidfRow table document"
    using calculateTFIDF_entry by blast
  from a row obtain count' where c: "(t, count') \<in> set document"
    and v: "v = tfidf_of table document t count'" and pos: "fless (Fin 0) v"
    using tfidfRow_entry by blast
  from assms d have "map_of table path = Some document"
    by (simp add: is_table_def is_gomap_def)
  moreover from assms d c have "map_of document t = Some count'"
    by (auto simp: is_table_def is_gomap_def)
  ultimately show "\<exists>document count'.
       map_of table path = Some document \<and> map_of document t = Some count' \<and>
       v = fmul (calculateTF_batch count' document)
                (calculateIDF_batch (int (length table)) (numOfDocsWithTerm t table))"
    using v by (auto simp: tfidf_of_def)
  from pos show "fless (Fin 0) v" .
next
  assume a: "map_of (calculateTFIDF table) path = Some row
             \<and> (\<forall>pd \<in> set table. map_of (snd pd) t' \<noteq> None)"
  then obtain document where d: "(path, document) \<in> set table"
    and row: "row = tfidfRow table document"
    using calculateTFIDF_entry by blast
  from d have ne: "table \<noteq> []" by auto
  show "map_of row t' = None"
  proof (rule ccontr)
    assume "map_of row t' \<noteq> None"
    then obtain w where "map_of row t' = Some w" by auto
    with row obtain count' where "w = tfidf_of table document t' count'" "fless (Fin 0) w"
      using tfidfRow_entry by blast
    with tfidf_of_all_docs [OF _ ne, of t' document count'] a show False by simp
  qed
next
  have "\<forall>tc \<in> set d. \<not> fless (Fin 0) (tfidf_of [(p, d)] d (fst tc) (snd tc))"
  proof
    fix tc assume "tc \<in> set d"
    then have "map_of d (fst tc) \<noteq> None"
      by (metis map_of_eq_None_iff image_eqI)
    then show "\<not> fless (Fin 0) (tfidf_of [(p, d)] d (fst tc) (snd tc))"
      by (intro tfidf_of_all_docs) auto
  qed
  then have "tfidfRow [(p, d)] d = []"
    by (simp add: tfidfRow_fold row_fold_noop)
  then show "calculateTFIDF [(p, d)] = [(p, [])]"
    by (simp add: calculateTFIDF_def)
qed

theorem calculateTFIDF_positive_only_witness:
  "is_table example_table
   \<and> map_of (calculateTFIDF example_table) ''d1'' = Some [(runes ''DOG'', Fin (ln 2 / 3))]
   \<and> map_of [(runes ''DOG'', Fin (ln 2 / 3))] (runes ''DOG'') = Some (Fin (ln 2 / 3))
   \<and> fless (Fin 0) (Fin (ln 2 / 3))
   \<and> map_of (snd (''d1'', [(runes ''CAT'', 2), (runes ''DOG'', 1)])) (runes ''CAT'') \<noteq> None
   \<and> map_of (snd (''d2'', [(runes ''CAT'', 1 :: int)])) (runes ''CAT'') \<noteq> None
   \<and> map_of [(runes ''DOG'', Fin (ln 2 / 3))] (runes ''CAT'') = None
   \<and> calculateTFIDF [(''d1'', [(runes ''CAT'', 2)])] = [(''d1'', [])]"
proof -
  have tab: "is_table example_table"
    by (simp add: is_table_def is_gomap_def example_table_def runes_def)
  from calculateTFIDF_positive_only
    [OF tab, of "''d1''" "[(runes ''DOG'', Fin (ln 2 / 3))]" "runes ''DOG''" "Fin (ln 2 / 3)"
       "runes ''CAT''" "''d1''" "[(runes ''CAT'', 2)]"]
  show ?thesis
    using tab by (simp add: example_tfidf) (simp add: example_table_def runes_def)
qed

end
